theory Spec2Isabelle
  imports Main
begin

section \<open>Values of the host language\<close>

text \<open>
  The component \<open>JsonPrettyPrint\<close> works on the result of \<open>JSON.parse\<close>. A parsed
  document is a value of the following type; \<open>'n\<close> is the host's number type, which the
  component only ever turns into text. An object holds its own properties in the order in
  which they were created; an array holds its items by ascending index.
\<close>

datatype 'n json =
    JNull
  | JBool bool
  | JNum 'n
  | JStr string
  | JArr "'n json list"
  | JObj "(string \<times> 'n json) list"

text \<open>
  A property key as the component handles it: \<open>obj.map((item, index) => [index, item])\<close>
  yields numbers, \<open>Object.entries\<close> yields strings. The parameter \<open>parentKey\<close> of
  \<open>buildJsonTree\<close> holds either, since \<open>fullPath\<close> is the bare \<open>key\<close> when the parent
  path is falsy.
\<close>

datatype pathKey = PNum nat | PStr string

text \<open>Decimal text of a natural number, as \<open>String(index)\<close> and \<open>${level}\<close> give it.\<close>

definition digitChar :: "nat \<Rightarrow> char" where
  "digitChar d = ''0123456789'' ! d"

fun natToString :: "nat \<Rightarrow> string" where
  "natToString n =
     (if n < 10 then [digitChar n] else natToString (n div 10) @ [digitChar (n mod 10)])"

declare natToString.simps [simp del]

text \<open>\<open>${key}\<close> in a template literal: the text of a key.\<close>

fun keyToString :: "pathKey \<Rightarrow> string" where
  "keyToString (PNum i) = natToString i"
| "keyToString (PStr s) = s"

text \<open>Truthiness of a key in \<open>parentKey ? ... : key\<close>: \<open>0\<close> and \<open>''\<close> are falsy.\<close>

fun truthy :: "pathKey \<Rightarrow> bool" where
  "truthy (PNum i) = (i \<noteq> 0)"
| "truthy (PStr s) = (s \<noteq> [])"

subsection \<open>Enumeration order of own properties\<close>

text \<open>
  \<open>Object.entries\<close> and \<open>Object.keys\<close> list the keys that are array indices (canonical
  decimal text of an integer below \<open>2^32 - 1\<close>) first, by ascending value, and then every
  other key in creation order.
\<close>

definition isDigit :: "char \<Rightarrow> bool" where
  "isDigit c = (c \<in> set ''0123456789'')"

definition digitValue :: "char \<Rightarrow> nat" where
  "digitValue c = of_char c - 48"

definition digitsValue :: "string \<Rightarrow> nat" where
  "digitsValue s = foldl (\<lambda>a c. 10 * a + digitValue c) 0 s"

definition isArrayIndex :: "string \<Rightarrow> bool" where
  "isArrayIndex s =
     (s \<noteq> [] \<and> list_all isDigit s \<and> (if hd s = CHR ''0'' then s = ''0'' else True)
      \<and> digitsValue s < 4294967295)"

definition objectEntries :: "(string \<times> 'a) list \<Rightarrow> (string \<times> 'a) list" where
  "objectEntries kvs =
     sort_key (\<lambda>(k, v). digitsValue k) (filter (\<lambda>(k, v). isArrayIndex k) kvs)
     @ filter (\<lambda>(k, v). \<not> isArrayIndex k) kvs"

text \<open>
  The entries the component iterates over:
  \<open>isArray ? obj.map((item, index) => [index, item]) : Object.entries(obj)\<close>.
  (For a value that is no container, \<open>Object.entries\<close> is never reached; it would list
  nothing for \<open>true\<close> or a number.)
\<close>

fun entriesOf :: "'n json \<Rightarrow> (pathKey \<times> 'n json) list" where
  "entriesOf (JArr xs) = zip (map PNum [0..<length xs]) xs"
| "entriesOf (JObj kvs) = map (\<lambda>(k, v). (PStr k, v)) (objectEntries kvs)"
| "entriesOf _ = []"

fun isNull :: "'n json \<Rightarrow> bool" where
  "isNull JNull = True"
| "isNull _ = False"

text \<open>\<open>typeof\<close>; note that \<open>typeof null\<close> is \<open>'object'\<close>.\<close>

fun typeof :: "'n json \<Rightarrow> string" where
  "typeof JNull = ''object''"
| "typeof (JBool b) = ''boolean''"
| "typeof (JNum n) = ''number''"
| "typeof (JStr s) = ''string''"
| "typeof (JArr xs) = ''object''"
| "typeof (JObj kvs) = ''object''"

fun isArrayValue :: "'n json \<Rightarrow> bool" where
  "isArrayValue (JArr xs) = True"
| "isArrayValue _ = False"

text \<open>\<open>obj.length\<close> of an array.\<close>

fun arrayLength :: "'n json \<Rightarrow> nat" where
  "arrayLength (JArr xs) = length xs"
| "arrayLength _ = 0"

text \<open>\<open>Object.keys(value).length\<close>.\<close>

definition keysLength :: "'n json \<Rightarrow> nat" where
  "keysLength v = length (entriesOf v)"

subsection \<open>Host functions\<close>

text \<open>
  Functions of the JavaScript runtime that the component calls and whose code is not part
  of the repository: \<open>Number.prototype.toString\<close>, the text of a number and the quoting of
  a string inside \<open>JSON.stringify\<close>, and \<open>JSON.parse\<close>, which either throws an error with a
  message (\<open>Inl\<close>) or returns the parsed value (\<open>Inr\<close>).
\<close>

record 'n host =
  numberToString :: "'n \<Rightarrow> string"
  jsonNumber :: "'n \<Rightarrow> string"
  jsonQuote :: "string \<Rightarrow> string"
  jsonParse :: "string \<Rightarrow> string + 'n json"

fun joinWith :: "string \<Rightarrow> string list \<Rightarrow> string" where
  "joinWith sep [] = []"
| "joinWith sep [x] = x"
| "joinWith sep (x # y # ys) = x @ sep @ joinWith sep (y # ys)"

lemma objectEntries_set: "set (objectEntries kvs) = set kvs"
  by (auto simp: objectEntries_def)

lemma size_list_member: "x \<in> set xs \<Longrightarrow> f x < Suc (size_list f xs)"
  by (induction xs) auto

lemma entriesOf_size: "(k, v) \<in> set (entriesOf obj) \<Longrightarrow> size v < size obj"
proof (cases obj)
  case (JArr xs)
  assume "(k, v) \<in> set (entriesOf obj)"
  with JArr have "v \<in> set xs" by (auto dest: set_zip_rightD)
  then show ?thesis using JArr size_list_member [of v xs size] by simp
next
  case (JObj kvs)
  assume "(k, v) \<in> set (entriesOf obj)"
  with JObj obtain k' where "(k', v) \<in> set kvs" by (auto simp: objectEntries_set)
  then show ?thesis
    using JObj size_list_member [of "(k', v)" kvs "size_prod (\<lambda>_. 0) size"] by simp
qed simp_all

text \<open>\<open>JSON.stringify(value)\<close> with no indentation.\<close>

function jsonStringify :: "'n host \<Rightarrow> 'n json \<Rightarrow> string" where
  "jsonStringify h JNull = ''null''"
| "jsonStringify h (JBool b) = (if b then ''true'' else ''false'')"
| "jsonStringify h (JNum n) = jsonNumber h n"
| "jsonStringify h (JStr s) = jsonQuote h s"
| "jsonStringify h (JArr xs) =
     ''['' @ joinWith '','' (map (\<lambda>(k, v). jsonStringify h v) (entriesOf (JArr xs))) @ '']''"
| "jsonStringify h (JObj kvs) =
     ''{'' @ joinWith '',''
        (map (\<lambda>(k, v). jsonQuote h (keyToString k) @ '':'' @ jsonStringify h v)
           (entriesOf (JObj kvs))) @ ''}''"
  by pat_completeness auto
termination
  by (relation "measure (\<lambda>(h, v). size v)")
     (auto dest!: entriesOf_size simp del: entriesOf.simps)

section \<open>The component\<close>

subsection \<open>Value presentation\<close>

text \<open>\<open>hasChildren(value)\<close>\<close>

definition hasChildren :: "'n json \<Rightarrow> bool" where
  "hasChildren v =
     (\<not> isNull v \<and> typeof v = ''object'' \<and>
      (if isArrayValue v then 0 < arrayLength v else 0 < keysLength v))"

text \<open>\<open>getValueType(value)\<close>\<close>

definition getValueType :: "'n json \<Rightarrow> string" where
  "getValueType v =
     (if isNull v then ''null'' else if isArrayValue v then ''array'' else typeof v)"

text \<open>\<open>formatValue(value)\<close>; \<open>CHR 0x22\<close> is the double quote.\<close>

definition formatValue :: "'n host \<Rightarrow> 'n json \<Rightarrow> string" where
  "formatValue h v =
     (case v of
        JStr s \<Rightarrow> [CHR 0x22] @ s @ [CHR 0x22]
      | JBool b \<Rightarrow> (if b then ''true'' else ''false'')
      | JNum n \<Rightarrow> numberToString h n
      | JNull \<Rightarrow> ''null''
      | _ \<Rightarrow> jsonStringify h v)"

text \<open>\<open>generateKey(path, level)\<close>: \<open>`${path}_${level}`\<close>\<close>

definition generateKey :: "pathKey \<Rightarrow> nat \<Rightarrow> string" where
  "generateKey path level = keyToString path @ ''_'' @ natToString level"

subsection \<open>Display nodes and materialization\<close>

text \<open>
  A row of the tree. The fields are those of the object literals in \<open>buildJsonTree\<close>
  (\<open>key\<close>, \<open>displayKey\<close>, \<open>value\<close>, \<open>type\<close>, \<open>level\<close>, \<open>hasChildren\<close>, \<open>isExpanded\<close>,
  \<open>isArray\<close>, \<open>children\<close>); the two literals for a scalar root have no \<open>isArray\<close>.
\<close>

datatype node = Node
  (n_key: string)
  (n_displayKey: pathKey)
  (n_value: string)
  (n_type: string)
  (n_level: nat)
  (n_hasChildren: bool)
  (n_isExpanded: bool)
  (n_isArray: "bool option")
  (n_children: "node list")

text \<open>\<open>const fullPath = parentKey ? `${parentKey}.${key}` : key\<close>\<close>

definition fullPathOf :: "pathKey \<Rightarrow> pathKey \<Rightarrow> pathKey" where
  "fullPathOf parentKey key =
     (if truthy parentKey then PStr (keyToString parentKey @ ''.'' @ keyToString key) else key)"

text \<open>
  The text of the \<open>value\<close> field of an entry's node:
  \<open>hasChildren ? (isArray ? `[${obj.length} items]` : `{${Object.keys(value).length} properties}`)
               : this.formatValue(value)\<close>,
  where \<open>obj\<close> and \<open>isArray\<close> belong to the container being iterated and \<open>value\<close> is
  the entry.
\<close>

definition entryValueText :: "'n host \<Rightarrow> 'n json \<Rightarrow> 'n json \<Rightarrow> string" where
  "entryValueText h obj v =
     (if hasChildren v
      then (if isArrayValue obj then ''['' @ natToString (arrayLength obj) @ '' items]''
            else ''{'' @ natToString (keysLength v) @ '' properties}'')
      else formatValue h v)"

text \<open>
  \<open>buildJsonTree(obj, parentKey, level)\<close>; \<open>S\<close> is \<open>this.expandedNodes\<close>, which the method
  only reads.
\<close>

function buildJsonTree :: "'n host \<Rightarrow> string set \<Rightarrow> 'n json \<Rightarrow> pathKey \<Rightarrow> nat \<Rightarrow> node list" where
  "buildJsonTree h S obj parentKey level =
     (if isNull obj then
        [Node (generateKey parentKey level) parentKey ''null'' ''null'' level False False None []]
      else if typeof obj \<noteq> ''object'' then
        [Node (generateKey parentKey level) parentKey (formatValue h obj) (typeof obj) level
           False False None []]
      else
        map (\<lambda>(key, v).
              let fullPath = fullPathOf parentKey key;
                  nodeKey = generateKey fullPath level;
                  hasCh = hasChildren v;
                  isExp = (nodeKey \<in> S)
              in Node nodeKey key (entryValueText h obj v) (getValueType v) level hasCh isExp
                   (Some (isArrayValue v))
                   (if hasCh \<and> isExp then buildJsonTree h S v fullPath (level + 1) else []))
          (entriesOf obj))"
  by pat_completeness auto
termination
  by (relation "measure (\<lambda>(h, S, obj, parentKey, level). size obj)")
     (auto dest: entriesOf_size)

declare buildJsonTree.simps [simp del]

text \<open>
  \<open>addAllNodesToExpanded(obj, parentKey, level)\<close>; the set \<open>this.expandedNodes\<close> is
  threaded through the \<open>forEach\<close> and returned.
\<close>

function addAllNodesToExpanded :: "string set \<Rightarrow> 'n json \<Rightarrow> pathKey \<Rightarrow> nat \<Rightarrow> string set" where
  "addAllNodesToExpanded S obj parentKey level =
     (if isNull obj \<or> typeof obj \<noteq> ''object'' then S
      else
        foldl (\<lambda>S' (key, v).
                let fullPath = fullPathOf parentKey key;
                    nodeKey = generateKey fullPath level
                in if hasChildren v
                   then addAllNodesToExpanded (insert nodeKey S') v fullPath (level + 1)
                   else S')
          S (entriesOf obj))"
  by pat_completeness auto
termination
  by (relation "measure (\<lambda>(S, obj, parentKey, level). size obj)")
     (auto dest: entriesOf_size)

declare addAllNodesToExpanded.simps [simp del]

subsection \<open>Component state and handlers\<close>

record component =
  fieldApiName :: string
  jsonTree :: "node list"
  error :: "string option"
  expandedNodes :: "string set"
  fieldData :: "string option"
  fieldDefinition :: "(string \<times> string) option"
  allExpanded :: bool
  objectApiName :: "string option"
  showRawFormat :: bool

text \<open>
  \<open>String.prototype.trim\<close> on a string of 8-bit characters: it strips tab, line feed,
  vertical tab, form feed, carriage return, space and no-break space at both ends.
\<close>

definition isWhiteSpace :: "char \<Rightarrow> bool" where
  "isWhiteSpace c = (of_char c \<in> set [9, 10, 11, 12, 13, 32, 160 :: nat])"

definition trim :: "string \<Rightarrow> string" where
  "trim s = rev (dropWhile isWhiteSpace (rev (dropWhile isWhiteSpace s)))"

text \<open>
  \<open>processPayload(payload)\<close>; \<open>None\<close> is a \<open>null\<close> or \<open>undefined\<close> payload. The \<open>catch\<close>
  block receives the error that \<open>JSON.parse\<close> throws.
\<close>

definition processPayload :: "'n host \<Rightarrow> string option \<Rightarrow> component \<Rightarrow> component" where
  "processPayload h payload s =
     (case payload of
        None \<Rightarrow> s\<lparr>jsonTree := []\<rparr>
      | Some p \<Rightarrow>
          if p = [] \<or> trim p = [] \<or> p = ''{}'' then s\<lparr>jsonTree := []\<rparr>
          else
            (case jsonParse h p of
               Inr parsedJson \<Rightarrow>
                 s\<lparr>jsonTree := buildJsonTree h (expandedNodes s) parsedJson (PStr []) 0\<rparr>
             | Inl message \<Rightarrow>
                 s\<lparr>error := Some (''Invalid JSON: '' @ message), jsonTree := []\<rparr>))"

definition processCurrentSelection :: "'n host \<Rightarrow> component \<Rightarrow> component" where
  "processCurrentSelection h s = processPayload h (fieldData s) s"

definition rebuildTree :: "'n host \<Rightarrow> component \<Rightarrow> component" where
  "rebuildTree h s = processCurrentSelection h s"

definition updateAllExpandedState :: "component \<Rightarrow> component" where
  "updateAllExpandedState s =
     (if expandedNodes s = {} then s\<lparr>allExpanded := False\<rparr> else s\<lparr>allExpanded := False\<rparr>)"

text \<open>\<open>handleToggleExpansion(event)\<close> with \<open>nodeKey = event.detail.nodeKey\<close>.\<close>

definition handleToggleExpansion :: "'n host \<Rightarrow> string \<Rightarrow> component \<Rightarrow> component" where
  "handleToggleExpansion h nodeKey s =
     (let s1 = (if nodeKey \<in> expandedNodes s
                then s\<lparr>expandedNodes := expandedNodes s - {nodeKey}\<rparr>
                else s\<lparr>expandedNodes := insert nodeKey (expandedNodes s)\<rparr>);
          s2 = updateAllExpandedState s1
      in rebuildTree h s2)"

definition expandAllNodes :: "'n host \<Rightarrow> component \<Rightarrow> component" where
  "expandAllNodes h s =
     (case fieldData s of
        None \<Rightarrow> s
      | Some selectedData \<Rightarrow>
          if selectedData = [] then s
          else
            (case jsonParse h selectedData of
               Inr parsedJson \<Rightarrow>
                 s\<lparr>expandedNodes :=
                     addAllNodesToExpanded (expandedNodes s) parsedJson (PStr []) 0\<rparr>
             | Inl message \<Rightarrow> s))"

definition handleExpandCollapseAll :: "'n host \<Rightarrow> component \<Rightarrow> component" where
  "handleExpandCollapseAll h s =
     processCurrentSelection h
       (if allExpanded s then s\<lparr>expandedNodes := {}, allExpanded := False\<rparr>
        else (expandAllNodes h s)\<lparr>allExpanded := True\<rparr>)"

text \<open>
  What the record wire delivers: the record (\<open>data\<close>) or an error. \<open>rd_own\<close> holds the
  string properties that sit on the record object itself (\<open>data[this.fieldApiName]\<close>).
\<close>

record fieldInfo =
  fi_value :: "string option"
  fi_displayValue :: "string option"

record recordData =
  rd_apiName :: "string option"
  rd_fields :: "string \<rightharpoonup> fieldInfo"
  rd_recordTypeAvailable :: bool
  rd_own :: "string \<rightharpoonup> string"

record wireError =
  we_bodyMessage :: "string option"
  we_message :: string

text \<open>\<open>x || null\<close> on an optional string: the empty string is falsy.\<close>

definition orNull :: "string option \<Rightarrow> string option" where
  "orNull x = (case x of None \<Rightarrow> None | Some t \<Rightarrow> if t = [] then None else Some t)"

definition extractFieldDefinition :: "recordData \<Rightarrow> component \<Rightarrow> component" where
  "extractFieldDefinition d s =
     (case rd_fields d (fieldApiName s) of
        None \<Rightarrow> s
      | Some fieldInfo \<Rightarrow>
          s\<lparr>fieldDefinition :=
              Some (case orNull (fi_displayValue fieldInfo) of
                      Some l \<Rightarrow> l | None \<Rightarrow> fieldApiName s,
                    fieldApiName s)\<rparr>)"

text \<open>\<open>wiredRecord({ error, data })\<close>\<close>

definition wiredRecord :: "'n host \<Rightarrow> wireError option \<Rightarrow> recordData option \<Rightarrow> component \<Rightarrow> component" where
  "wiredRecord h err dat s =
     (case dat of
        Some d \<Rightarrow>
          (let s1 = s\<lparr>error := None\<rparr>;
               s2 = (case orNull (rd_apiName d) of
                       Some a \<Rightarrow> s1\<lparr>objectApiName := Some a\<rparr> | None \<Rightarrow> s1);
               s3 = s2\<lparr>fieldData :=
                         orNull (case rd_fields d (fieldApiName s2) of
                                   None \<Rightarrow> None | Some fieldInfo \<Rightarrow> fi_value fieldInfo)\<rparr>;
               s4 = (if fieldData s3 = None \<and> rd_recordTypeAvailable d
                     then s3\<lparr>fieldData := orNull (rd_own d (fieldApiName s3))\<rparr> else s3);
               s5 = extractFieldDefinition d s4
           in processCurrentSelection h s5)
      | None \<Rightarrow>
          (case err of
             Some e \<Rightarrow>
               s\<lparr>error := Some (''Failed to load field '' @ [CHR 0x27] @ fieldApiName s
                                 @ [CHR 0x27] @ '': ''
                                 @ (case orNull (we_bodyMessage e) of
                                      Some m \<Rightarrow> m | None \<Rightarrow> we_message e)),
                 jsonTree := [],
                 fieldData := None\<rparr>
           | None \<Rightarrow> s))"

subsection \<open>Observing a tree\<close>

text \<open>Every node of a tree, parents before their children, rows in order.\<close>

fun allNodes :: "node \<Rightarrow> node list" where
  "allNodes (Node k d v t l hc ie ia cs) =
     Node k d v t l hc ie ia cs # concat (map allNodes cs)"

definition flatten :: "node list \<Rightarrow> node list" where
  "flatten ns = concat (map allNodes ns)"

text \<open>
  The node reached from a list of rows by a path of row indices: \<open>[i]\<close> is row \<open>i\<close>,
  \<open>[i, j]\<close> is row \<open>j\<close> among the children of row \<open>i\<close>, and so on.
\<close>

fun nodeAt :: "node list \<Rightarrow> nat list \<Rightarrow> node option" where
  "nodeAt ns [] = None"
| "nodeAt ns [i] = (if i < length ns then Some (ns ! i) else None)"
| "nodeAt ns (i # j # js) = (if i < length ns then nodeAt (n_children (ns ! i)) (j # js) else None)"

subsection \<open>Auxiliary notions\<close>

text \<open>A value that passes both guards of \<open>buildJsonTree\<close>: an array or an object.\<close>

definition isContainer :: "'n json \<Rightarrow> bool" where
  "isContainer obj = (\<not> isNull obj \<and> typeof obj = ''object'')"

text \<open>The node that the body of the \<open>forEach\<close> in \<open>buildJsonTree\<close> pushes for one entry.\<close>

definition entryNode ::
  "'n host \<Rightarrow> string set \<Rightarrow> 'n json \<Rightarrow> pathKey \<Rightarrow> nat \<Rightarrow> pathKey \<Rightarrow> 'n json \<Rightarrow> node" where
  "entryNode h S obj parentKey level key v =
     Node (generateKey (fullPathOf parentKey key) level) key (entryValueText h obj v)
       (getValueType v) level (hasChildren v)
       (generateKey (fullPathOf parentKey key) level \<in> S)
       (Some (isArrayValue v))
       (if hasChildren v \<and> generateKey (fullPathOf parentKey key) level \<in> S
        then buildJsonTree h S v (fullPathOf parentKey key) (level + 1) else [])"

text \<open>The body of the \<open>forEach\<close> in \<open>addAllNodesToExpanded\<close>.\<close>

definition addEntry :: "pathKey \<Rightarrow> nat \<Rightarrow> string set \<Rightarrow> pathKey \<times> 'n json \<Rightarrow> string set" where
  "addEntry p l =
     (\<lambda>S' (key, v).
         let fullPath = fullPathOf p key; nodeKey = generateKey fullPath l
         in if hasChildren v
            then addAllNodesToExpanded (insert nodeKey S') v fullPath (l + 1)
            else S')"

text \<open>
  A host whose numbers are the natural numbers, written in decimal; \<open>JSON.parse\<close> is
  left open. It serves to run the component on concrete documents.
\<close>

definition decimalHost :: "(string \<Rightarrow> string + nat json) \<Rightarrow> nat host" where
  "decimalHost parse =
     \<lparr>numberToString = natToString, jsonNumber = natToString,
      jsonQuote = (\<lambda>s. [CHR 0x22] @ s @ [CHR 0x22]), jsonParse = parse\<rparr>"

text \<open>The field initialisers of the class.\<close>

definition initialState :: component where
  "initialState =
     \<lparr>fieldApiName = ''Payload__c'', jsonTree = [], error = None, expandedNodes = {},
      fieldData = None, fieldDefinition = None, allExpanded = False, objectApiName = None,
      showRawFormat = False\<rparr>"

text \<open>\<open>handleFormatToggle()\<close>\<close>

definition handleFormatToggle :: "component \<Rightarrow> component" where
  "handleFormatToggle s = s\<lparr>showRawFormat := \<not> showRawFormat s\<rparr>"

text \<open>
  The states the component can be in: it starts from its initialisers; its owner may set
  the public property \<open>fieldApiName\<close>; the record wire and the object-info wire (which
  calls \<open>processCurrentSelection\<close>) may fire; the user may toggle a node, press the
  expand/collapse-all button or the format button.
\<close>

inductive reachable :: "'n host \<Rightarrow> component \<Rightarrow> bool" for h :: "'n host" where
  init: "reachable h initialState"
| configure: "reachable h s \<Longrightarrow> reachable h (s\<lparr>fieldApiName := a\<rparr>)"
| wire: "reachable h s \<Longrightarrow> reachable h (wiredRecord h err dat s)"
| objectInfo: "reachable h s \<Longrightarrow> reachable h (processCurrentSelection h s)"
| toggle: "reachable h s \<Longrightarrow> reachable h (handleToggleExpansion h nodeKey s)"
| toggleAll: "reachable h s \<Longrightarrow> reachable h (handleExpandCollapseAll h s)"
| format: "reachable h s \<Longrightarrow> reachable h (handleFormatToggle s)"

text \<open>
  \<open>JSON.parse\<close> on the few texts that the examples below use; like the blank text,
  every other text is rejected.
\<close>

definition sampleParse :: "string \<Rightarrow> string + nat json" where
  "sampleParse t =
     (if t = ''[[1]]'' then Inr (JArr [JArr [JNum 1]])
      else if t = ''[1]'' then Inr (JArr [JNum 1])
      else if t = ''{invalid'' then Inl ''Unexpected token i in JSON at position 1''
      else Inl ''Unexpected end of JSON input'')"

definition sampleHost :: "nat host" where
  "sampleHost = decimalHost sampleParse"

text \<open>The number of entries of a value, at every depth.\<close>

function entryCount :: "'n json \<Rightarrow> nat" where
  "entryCount obj = sum_list (map (\<lambda>(k, v). Suc (entryCount v)) (entriesOf obj))"
  by pat_completeness auto
termination
  by (relation "measure size") (auto dest: entriesOf_size)

declare entryCount.simps [simp del]

text \<open>
  A record as the wire delivers it, whose field \<open>Payload__c\<close> holds the given text.
\<close>

definition sampleRecord :: "string \<Rightarrow> recordData" where
  "sampleRecord t =
     \<lparr>rd_apiName = Some ''Account'',
      rd_fields = [''Payload__c'' \<mapsto> \<lparr>fi_value = Some t, fi_displayValue = None\<rparr>],
      rd_recordTypeAvailable = False,
      rd_own = Map.empty\<rparr>"

text \<open>
  A value as \<open>JSON.parse\<close> returns it: no object, at any depth, has two properties
  with the same key.
\<close>

fun wellFormed :: "'n json \<Rightarrow> bool" where
  "wellFormed (JArr xs) = list_all wellFormed xs"
| "wellFormed (JObj kvs) = (distinct (map fst kvs) \<and> list_all (\<lambda>(k, v). wellFormed v) kvs)"
| "wellFormed _ = True"

text \<open>No key of any object of the value, at any depth, contains a dot.\<close>

fun dotFreeKeys :: "'n json \<Rightarrow> bool" where
  "dotFreeKeys (JArr xs) = list_all dotFreeKeys xs"
| "dotFreeKeys (JObj kvs) = list_all (\<lambda>(k, v). CHR ''.'' \<notin> set k \<and> dotFreeKeys v) kvs"
| "dotFreeKeys _ = True"

text \<open>
  Where the ids of the rows below a path lie. \<open>pathUnder p l t lv\<close>: the text \<open>t\<close>
  can be the path of a row of level \<open>lv\<close> in the tree built for parent path \<open>p\<close> at
  level \<open>l\<close>. Under a truthy parent the path extends the parent's text and has one more
  dot per level; under a falsy parent the parent's text is dropped and the path has at
  most one dot per level below \<open>l\<close>.
\<close>

definition pathUnder :: "pathKey \<Rightarrow> nat \<Rightarrow> string \<Rightarrow> nat \<Rightarrow> bool" where
  "pathUnder p l t lv =
     (l \<le> lv \<and>
      (if truthy p
       then (\<exists>r. t = keyToString p @ ''.'' @ r) \<and>
            count_list t (CHR ''.'') = count_list (keyToString p) (CHR ''.'') + (lv - l) + 1
       else count_list t (CHR ''.'') \<le> lv - l))"

text \<open>Two keys of one container: both indices or both property names.\<close>

fun sameKind :: "pathKey \<Rightarrow> pathKey \<Rightarrow> bool" where
  "sameKind (PNum i) (PNum j) = True"
| "sameKind (PStr s) (PStr t) = True"
| "sameKind _ _ = False"

text \<open>
  \<open>blockShape p l k t lv\<close>: the text \<open>t\<close> can be the path of a row of level
  \<open>lv\<close> that belongs to the entry with key \<open>k\<close> of a container built for parent path
  \<open>p\<close> at level \<open>l\<close>: the entry's own row or a row below it.
\<close>

definition blockShape :: "pathKey \<Rightarrow> nat \<Rightarrow> pathKey \<Rightarrow> string \<Rightarrow> nat \<Rightarrow> bool" where
  "blockShape p l k t lv =
     ((lv = l \<and> t = keyToString (fullPathOf p k)) \<or> pathUnder (fullPathOf p k) (Suc l) t lv)"

section \<open>Properties\<close>

subsection \<open>The shape of a materialized tree\<close>

lemma buildJsonTree_container:
  "isContainer obj \<Longrightarrow>
   buildJsonTree h S obj parentKey level =
     map (\<lambda>(key, v). entryNode h S obj parentKey level key v) (entriesOf obj)"
  by (subst buildJsonTree.simps) (auto simp add: isContainer_def entryNode_def Let_def)

lemma buildJsonTree_scalar:
  "\<not> isContainer obj \<Longrightarrow>
   buildJsonTree h S obj parentKey level =
     [Node (generateKey parentKey level) parentKey (formatValue h obj)
        (if isNull obj then ''null'' else typeof obj) level False False None []]"
  by (subst buildJsonTree.simps) (cases obj; simp add: isContainer_def formatValue_def)

lemma hasChildren_container: "hasChildren v \<Longrightarrow> isContainer v"
  by (simp add: hasChildren_def isContainer_def)

lemma hasChildren_entries: "hasChildren v \<longleftrightarrow> isContainer v \<and> entriesOf v \<noteq> []"
  by (cases v) (auto simp: hasChildren_def isContainer_def keysLength_def)

lemma hasChildren_tree_nonempty: "hasChildren v \<Longrightarrow> buildJsonTree h S v p l \<noteq> []"
  by (simp add: hasChildren_entries buildJsonTree_container)

lemma allNodes_unfold: "allNodes n = n # flatten (n_children n)"
  by (cases n) (simp add: flatten_def)

lemma flatten_simps [simp]:
  "flatten [] = []"
  "flatten (n # ns) = n # flatten (n_children n) @ flatten ns"
  by (simp_all add: flatten_def allNodes_unfold)

lemma flatten_append [simp]: "flatten (xs @ ys) = flatten xs @ flatten ys"
  by (simp add: flatten_def)

lemma set_flatten: "set (flatten ns) = (\<Union>n \<in> set ns. insert n (set (flatten (n_children n))))"
  by (induction ns) auto

lemma json_entries_induct [case_names step]:
  assumes "\<And>obj. (\<And>k v. (k, v) \<in> set (entriesOf obj) \<Longrightarrow> P v) \<Longrightarrow> P obj"
  shows "P obj"
proof (induction obj rule: measure_induct_rule [where f = size])
  case (less x)
  show ?case by (rule assms) (rule less, erule entriesOf_size)
qed

lemma entryNode_sel [simp]:
  "n_key (entryNode h S obj p l k v) = generateKey (fullPathOf p k) l"
  "n_displayKey (entryNode h S obj p l k v) = k"
  "n_value (entryNode h S obj p l k v) = entryValueText h obj v"
  "n_type (entryNode h S obj p l k v) = getValueType v"
  "n_level (entryNode h S obj p l k v) = l"
  "n_hasChildren (entryNode h S obj p l k v) = hasChildren v"
  "n_isExpanded (entryNode h S obj p l k v) = (generateKey (fullPathOf p k) l \<in> S)"
  "n_isArray (entryNode h S obj p l k v) = Some (isArrayValue v)"
  "n_children (entryNode h S obj p l k v) =
     (if hasChildren v \<and> generateKey (fullPathOf p k) l \<in> S
      then buildJsonTree h S v (fullPathOf p k) (l + 1) else [])"
  by (simp_all add: entryNode_def)

lemma in_entry_children:
  "n \<in> set (flatten (n_children (entryNode h S obj p l k v))) \<longleftrightarrow>
   hasChildren v \<and> generateKey (fullPathOf p k) l \<in> S \<and>
   n \<in> set (flatten (buildJsonTree h S v (fullPathOf p k) (l + 1)))"
  by auto

lemma in_flatten_container:
  assumes "isContainer obj"
  shows "n \<in> set (flatten (buildJsonTree h S obj p l)) \<longleftrightarrow>
    (\<exists>k v. (k, v) \<in> set (entriesOf obj) \<and>
       (n = entryNode h S obj p l k v \<or>
        (hasChildren v \<and> generateKey (fullPathOf p k) l \<in> S \<and>
         n \<in> set (flatten (buildJsonTree h S v (fullPathOf p k) (l + 1))))))"
proof -
  have "n \<in> set (flatten (buildJsonTree h S obj p l)) \<longleftrightarrow>
    (\<exists>e \<in> set (entriesOf obj).
       n = entryNode h S obj p l (fst e) (snd e) \<or>
       n \<in> set (flatten (n_children (entryNode h S obj p l (fst e) (snd e)))))"
    unfolding buildJsonTree_container [OF assms]
    by (subst set_flatten) (simp add: case_prod_beta)
  also have "\<dots> \<longleftrightarrow> (\<exists>k v. (k, v) \<in> set (entriesOf obj) \<and>
       (n = entryNode h S obj p l k v \<or>
        n \<in> set (flatten (n_children (entryNode h S obj p l k v)))))"
    by force
  finally show ?thesis unfolding in_entry_children .
qed

lemma tree_node_cases:
  "isContainer obj \<Longrightarrow> n \<in> set (flatten (buildJsonTree h S obj p l)) \<Longrightarrow>
   \<exists>obj' p' l' k v. isContainer obj' \<and> (k, v) \<in> set (entriesOf obj') \<and>
       n = entryNode h S obj' p' l' k v"
proof (induction obj arbitrary: p l rule: json_entries_induct)
  case (step obj)
  from step.prems obtain k v where kv: "(k, v) \<in> set (entriesOf obj)"
    and n: "n = entryNode h S obj p l k v \<or>
            (hasChildren v \<and> generateKey (fullPathOf p k) l \<in> S \<and>
             n \<in> set (flatten (buildJsonTree h S v (fullPathOf p k) (l + 1))))"
    unfolding in_flatten_container [OF step.prems(1)] by blast
  from n show ?case
  proof
    assume "n = entryNode h S obj p l k v"
    with step.prems(1) kv show ?thesis by blast
  next
    assume a: "hasChildren v \<and> generateKey (fullPathOf p k) l \<in> S \<and>
       n \<in> set (flatten (buildJsonTree h S v (fullPathOf p k) (l + 1)))"
    then have "isContainer v" by (simp add: hasChildren_container)
    with step.IH [OF kv] a show ?thesis by blast
  qed
qed

text \<open>Rules that evaluate the component on a concrete document.\<close>

lemmas eval_simps =
  buildJsonTree_container buildJsonTree_scalar isContainer_def entryNode_def
  objectEntries_def isArrayIndex_def isDigit_def digitsValue_def digitValue_def
  generateKey_def fullPathOf_def entryValueText_def hasChildren_def keysLength_def
  getValueType_def formatValue_def natToString.simps digitChar_def decimalHost_def

subsection \<open>Expanding every node\<close>

lemma addEntry_apply:
  "addEntry p l S' e =
     (if hasChildren (snd e)
      then addAllNodesToExpanded (insert (generateKey (fullPathOf p (fst e)) l) S') (snd e)
             (fullPathOf p (fst e)) (l + 1)
      else S')"
  by (simp add: addEntry_def Let_def case_prod_beta)

lemma addAll_container:
  "isContainer obj \<Longrightarrow>
   addAllNodesToExpanded S obj p l = foldl (addEntry p l) S (entriesOf obj)"
  by (subst addAllNodesToExpanded.simps) (simp add: isContainer_def addEntry_def)

lemma addAll_scalar: "\<not> isContainer obj \<Longrightarrow> addAllNodesToExpanded S obj p l = S"
  by (subst addAllNodesToExpanded.simps) (auto simp: isContainer_def)

lemma foldl_union:
  assumes "\<And>S x. x \<in> set xs \<Longrightarrow> f S x = S \<union> f {} x"
  shows "foldl f S xs = S \<union> (\<Union>x \<in> set xs. f {} x)"
  using assms
proof (induction xs arbitrary: S)
  case Nil
  then show ?case by simp
next
  case (Cons x xs)
  have "foldl f S (x # xs) = foldl f (f S x) xs" by simp
  also have "\<dots> = f S x \<union> (\<Union>y \<in> set xs. f {} y)"
    by (rule Cons.IH, rule Cons.prems) simp
  also have "f S x = S \<union> f {} x" by (rule Cons.prems) simp
  finally show ?case by auto
qed

lemma addAll_union: "addAllNodesToExpanded S obj p l = S \<union> addAllNodesToExpanded {} obj p l"
proof (induction obj arbitrary: S p l rule: json_entries_induct)
  case (step obj)
  show ?case
  proof (cases "isContainer obj")
    case False
    then show ?thesis by (simp add: addAll_scalar)
  next
    case True
    have e: "addEntry p l S' x = S' \<union> addEntry p l {} x" if "x \<in> set (entriesOf obj)" for S' x
    proof (cases "hasChildren (snd x)")
      case False
      then show ?thesis by (simp add: addEntry_apply)
    next
      case True
      from that have m: "(fst x, snd x) \<in> set (entriesOf obj)" by simp
      show ?thesis
        using True step.IH [OF m, of "insert (generateKey (fullPathOf p (fst x)) l) S'"]
          step.IH [OF m, of "{generateKey (fullPathOf p (fst x)) l}"]
        by (simp add: addEntry_apply)
    qed
    show ?thesis
      unfolding addAll_container [OF True]
      using foldl_union [of "entriesOf obj" "addEntry p l" S, OF e]
        foldl_union [of "entriesOf obj" "addEntry p l" "{}", OF e]
      by simp
  qed
qed

lemma addAll_entries:
  assumes "isContainer obj"
  shows "addAllNodesToExpanded S obj p l =
     S \<union> (\<Union>e \<in> set (entriesOf obj). addEntry p l {} e)"
proof -
  have "addEntry p l S' x = S' \<union> addEntry p l {} x" for S' x
    using addAll_union [of "insert (generateKey (fullPathOf p (fst x)) l) S'" "snd x"]
      addAll_union [of "{generateKey (fullPathOf p (fst x)) l}" "snd x"]
    by (simp add: addEntry_apply)
  then show ?thesis
    unfolding addAll_container [OF assms] by (rule foldl_union)
qed

lemma addAll_covers:
  assumes "isContainer obj" "(k, v) \<in> set (entriesOf obj)" "hasChildren v"
  shows "generateKey (fullPathOf p k) l \<in> addAllNodesToExpanded S obj p l"
    and "addAllNodesToExpanded {} v (fullPathOf p k) (l + 1) \<subseteq> addAllNodesToExpanded S obj p l"
proof -
  have "addEntry p l {} (k, v) \<subseteq> addAllNodesToExpanded S obj p l"
    unfolding addAll_entries [OF assms(1)] using assms(2) by blast
  moreover have "addEntry p l {} (k, v) =
    insert (generateKey (fullPathOf p k) l) (addAllNodesToExpanded {} v (fullPathOf p k) (l + 1))"
    using assms(3) addAll_union [of "{generateKey (fullPathOf p k) l}" v]
    by (simp add: addEntry_apply)
  ultimately show "generateKey (fullPathOf p k) l \<in> addAllNodesToExpanded S obj p l"
    and "addAllNodesToExpanded {} v (fullPathOf p k) (l + 1) \<subseteq> addAllNodesToExpanded S obj p l"
    by auto
qed

lemma expanded_everywhere:
  "addAllNodesToExpanded {} obj p l \<subseteq> S' \<Longrightarrow>
   n \<in> set (flatten (buildJsonTree h S' obj p l)) \<Longrightarrow> n_hasChildren n \<Longrightarrow>
   n_key n \<in> S' \<and> n_isExpanded n \<and> n_children n \<noteq> []"
proof (induction obj arbitrary: p l rule: json_entries_induct)
  case (step obj)
  show ?case
  proof (cases "isContainer obj")
    case False
    with step.prems show ?thesis by (simp add: buildJsonTree_scalar)
  next
    case True
    from step.prems(2) obtain k v where kv: "(k, v) \<in> set (entriesOf obj)"
      and n: "n = entryNode h S' obj p l k v \<or>
            (hasChildren v \<and> generateKey (fullPathOf p k) l \<in> S' \<and>
             n \<in> set (flatten (buildJsonTree h S' v (fullPathOf p k) (l + 1))))"
      unfolding in_flatten_container [OF True] by blast
    from n show ?thesis
    proof
      assume eq: "n = entryNode h S' obj p l k v"
      with step.prems(3) have hc: "hasChildren v" by simp
      from addAll_covers(1) [OF True kv hc] step.prems(1)
      have "generateKey (fullPathOf p k) l \<in> S'" by blast
      with hc show ?thesis unfolding eq by (simp add: hasChildren_tree_nonempty)
    next
      assume a: "hasChildren v \<and> generateKey (fullPathOf p k) l \<in> S' \<and>
             n \<in> set (flatten (buildJsonTree h S' v (fullPathOf p k) (l + 1)))"
      from addAll_covers(2) [OF True kv, of p l "{}"] a step.prems(1)
      have "addAllNodesToExpanded {} v (fullPathOf p k) (l + 1) \<subseteq> S'" by blast
      from step.IH [OF kv this] a step.prems(3) show ?thesis by blast
    qed
  qed
qed

lemma entryCount_no_entries: "entriesOf v = [] \<Longrightarrow> entryCount v = 0"
  by (subst entryCount.simps) simp

lemma not_hasChildren_no_entries: "\<not> hasChildren v \<Longrightarrow> entriesOf v = []"
  by (cases v) (auto simp: hasChildren_def keysLength_def)

lemma length_flatten: "length (flatten ns) = (\<Sum>n\<leftarrow>ns. Suc (length (flatten (n_children n))))"
  by (induction ns) auto

lemma full_tree_size:
  "addAllNodesToExpanded {} obj p l \<subseteq> S' \<Longrightarrow> isContainer obj \<Longrightarrow>
   length (flatten (buildJsonTree h S' obj p l)) = entryCount obj"
proof (induction obj arbitrary: p l rule: json_entries_induct)
  case (step obj)
  have "Suc (length (flatten (n_children (entryNode h S' obj p l (fst e) (snd e)))))
        = Suc (entryCount (snd e))" if e: "e \<in> set (entriesOf obj)" for e
  proof (cases "hasChildren (snd e)")
    case False
    then show ?thesis
      by (simp add: entryCount_no_entries not_hasChildren_no_entries)
  next
    case True
    from e have m: "(fst e, snd e) \<in> set (entriesOf obj)" by simp
    from addAll_covers(1) [OF step.prems(2) m True, of p l "{}"] step.prems(1)
    have k: "generateKey (fullPathOf p (fst e)) l \<in> S'" by blast
    from addAll_covers(2) [OF step.prems(2) m True, of p l "{}"] step.prems(1)
    have "addAllNodesToExpanded {} (snd e) (fullPathOf p (fst e)) (l + 1) \<subseteq> S'" by blast
    from step.IH [OF m this hasChildren_container [OF True]] True k
    show ?thesis by simp
  qed
  then have "(\<Sum>e\<leftarrow>entriesOf obj.
                Suc (length (flatten (n_children (entryNode h S' obj p l (fst e) (snd e))))))
             = (\<Sum>e\<leftarrow>entriesOf obj. Suc (entryCount (snd e)))"
    by (intro arg_cong [where f = sum_list] map_cong refl)
  then show ?case
    unfolding buildJsonTree_container [OF step.prems(2)]
    by (subst entryCount.simps, subst length_flatten) (simp add: case_prod_unfold comp_def)
qed

text \<open>
  C5. After \<open>addAllNodesToExpanded\<close> has run over a document, from any prior set of
  expanded nodes, materializing the document with the resulting set gives a tree in which
  every node that has children carries an id of the set, is expanded and shows its
  children; and the tree has a row for every entry of the document, at every depth.
\<close>

theorem expandAll_totality:
  assumes "S' = addAllNodesToExpanded S obj p l"
  shows "(\<forall>n \<in> set (flatten (buildJsonTree h S' obj p l)).
            n_hasChildren n \<longrightarrow> n_key n \<in> S' \<and> n_isExpanded n \<and> n_children n \<noteq> [])
         \<and> (isContainer obj \<longrightarrow> length (flatten (buildJsonTree h S' obj p l)) = entryCount obj)"
proof -
  have sub: "addAllNodesToExpanded {} obj p l \<subseteq> S'"
    unfolding assms by (subst (2) addAll_union) simp
  show ?thesis
    using expanded_everywhere [OF sub] full_tree_size [OF sub] by blast
qed

lemma entryCount_simps:
  "entryCount (JArr xs) = sum_list (map (\<lambda>(k, v). Suc (entryCount v)) (entriesOf (JArr xs)))"
  "entryCount (JObj kvs) = sum_list (map (\<lambda>(k, v). Suc (entryCount v)) (entriesOf (JObj kvs)))"
  "entryCount JNull = 0"
  "entryCount (JBool b) = 0"
  "entryCount (JNum i) = 0"
  "entryCount (JStr t) = 0"
  by (subst entryCount.simps, simp)+

lemmas eval_expand = addAll_container addAll_scalar addEntry_apply entryCount_simps

text \<open>
  The witness: an array holding an array and an object that holds an object. All three
  non-empty containers end up in the set, and the five entries all have a row.
\<close>

theorem expandAll_totality_witness:
  "addAllNodesToExpanded {}
     (JArr [JArr [JNum (1::nat)], JObj [(''a'', JObj [(''b'', JNull)])]]) (PStr []) 0
     = {''0_0'', ''1_0'', ''1.a_1''}
   \<and> map (\<lambda>n. (n_key n, n_hasChildren n, n_isExpanded n))
        (flatten (buildJsonTree sampleHost {''0_0'', ''1_0'', ''1.a_1''}
           (JArr [JArr [JNum 1], JObj [(''a'', JObj [(''b'', JNull)])]]) (PStr []) 0))
     = [(''0_0'', True, True), (''0_1'', False, False), (''1_0'', True, True),
        (''1.a_1'', True, True), (''1.a.b_2'', False, False)]
   \<and> entryCount (JArr [JArr [JNum (1::nat)], JObj [(''a'', JObj [(''b'', JNull)])]]) = 5"
proof -
  have S: "{''0_0'', ''1_0'', ''1.a_1''} = addAllNodesToExpanded {}
     (JArr [JArr [JNum (1::nat)], JObj [(''a'', JObj [(''b'', JNull)])]]) (PStr []) 0"
    by (simp add: eval_simps eval_expand insert_commute)
  show ?thesis
    using expandAll_totality [OF S, of sampleHost] S
    by (simp add: eval_simps eval_expand sampleHost_def)
qed


subsection \<open>Laziness\<close>

text \<open>
  C4. In every materialized tree, for every node at every depth: a node that is not
  expanded has no children, even if its value has entries; and a node has children exactly
  when it both has children to show (\<open>hasChildren\<close>) and is expanded.
\<close>

theorem laziness:
  "\<forall>n \<in> set (flatten (buildJsonTree h S obj p l)).
     (\<not> n_isExpanded n \<longrightarrow> n_children n = []) \<and>
     (n_children n \<noteq> [] \<longleftrightarrow> n_hasChildren n \<and> n_isExpanded n)"
proof (cases "isContainer obj")
  case False
  then show ?thesis by (simp add: buildJsonTree_scalar)
next
  case True
  show ?thesis
  proof
    fix n assume "n \<in> set (flatten (buildJsonTree h S obj p l))"
    from tree_node_cases [OF True this] obtain obj' p' l' k v
      where n: "n = entryNode h S obj' p' l' k v" by blast
    show "(\<not> n_isExpanded n \<longrightarrow> n_children n = []) \<and>
     (n_children n \<noteq> [] \<longleftrightarrow> n_hasChildren n \<and> n_isExpanded n)"
      unfolding n by (simp add: hasChildren_tree_nonempty)
  qed
qed

text \<open>
  The witness: \<open>{"a": 1, "b": {"c": 2}}\<close> with nothing expanded. Row \<open>b\<close> has nested
  content, is not expanded and has no children.
\<close>

theorem laziness_witness:
  "map (\<lambda>n. (n_key n, n_hasChildren n, n_isExpanded n, n_children n))
     (flatten (buildJsonTree sampleHost {}
        (JObj [(''a'', JNum 1), (''b'', JObj [(''c'', JNum 2)])]) (PStr []) 0))
   = [(''a_0'', False, False, []), (''b_0'', True, False, [])]"
  using laziness [of sampleHost "{}" "JObj [(''a'', JNum 1), (''b'', JObj [(''c'', JNum 2)])]"
      "PStr []" 0]
  by (simp add: eval_simps sampleHost_def)

subsection \<open>The handlers\<close>

lemma processPayload_expandedNodes [simp]:
  "expandedNodes (processPayload h payload s) = expandedNodes s"
  by (simp add: processPayload_def split: option.splits sum.splits)

lemma processPayload_allExpanded [simp]:
  "allExpanded (processPayload h payload s) = allExpanded s"
  by (simp add: processPayload_def split: option.splits sum.splits)

lemma processPayload_fieldData [simp]:
  "fieldData (processPayload h payload s) = fieldData s"
  by (simp add: processPayload_def split: option.splits sum.splits)

lemma dropWhile_all_dropped:
  "(\<forall>x \<in> set (dropWhile P xs). P x) \<longleftrightarrow> (\<forall>x \<in> set xs. P x)"
  by (induction xs) auto

lemma trim_blank: "trim p = [] \<longleftrightarrow> list_all isWhiteSpace p"
  by (simp add: trim_def dropWhile_eq_Nil_conv list_all_iff dropWhile_all_dropped)

lemmas eval_state =
  processPayload_def processCurrentSelection_def rebuildTree_def updateAllExpandedState_def
  handleToggleExpansion_def expandAllNodes_def handleExpandCollapseAll_def wiredRecord_def
  extractFieldDefinition_def orNull_def trim_def isWhiteSpace_def initialState_def
  sampleHost_def sampleParse_def decimalHost_def

text \<open>
  C8. Toggling the same node twice leaves the set of expanded nodes as it was before the
  first toggle.
\<close>

theorem toggle_twice:
  "expandedNodes (handleToggleExpansion h nodeKey (handleToggleExpansion h nodeKey s))
   = expandedNodes s"
  by (auto simp: handleToggleExpansion_def Let_def rebuildTree_def processCurrentSelection_def
      updateAllExpandedState_def)

theorem toggle_twice_witness:
  "expandedNodes (handleToggleExpansion sampleHost ''0_0''
      (initialState\<lparr>fieldData := Some ''[[1]]''\<rparr>)) = {''0_0''}
   \<and> expandedNodes (handleToggleExpansion sampleHost ''0_0''
        (handleToggleExpansion sampleHost ''0_0''
           (initialState\<lparr>fieldData := Some ''[[1]]''\<rparr>))) = {}"
  using toggle_twice [of sampleHost "''0_0''" "initialState\<lparr>fieldData := Some ''[[1]]''\<rparr>"]
  by (simp add: eval_state Let_def)

text \<open>
  C9. After \<open>handleToggleExpansion\<close> the flag \<open>allExpanded\<close> is false, whatever the node
  and the state before.
\<close>

theorem toggle_resets_allExpanded:
  "allExpanded (handleToggleExpansion h nodeKey s) = False"
  by (simp add: handleToggleExpansion_def Let_def rebuildTree_def processCurrentSelection_def
      updateAllExpandedState_def)

text \<open>
  The witness: the document \<open>[[1]]\<close>, whose only expandable node is \<open>0_0\<close>. After
  the toggle that node is expanded, so every expandable node is, and the flag is false.
\<close>

theorem toggle_resets_allExpanded_witness:
  "allExpanded (handleToggleExpansion sampleHost ''0_0''
      (initialState\<lparr>fieldData := Some ''[[1]]''\<rparr>)) = False
   \<and> map (\<lambda>n. (n_key n, n_hasChildren n, n_isExpanded n))
       (flatten (jsonTree (handleToggleExpansion sampleHost ''0_0''
          (initialState\<lparr>fieldData := Some ''[[1]]''\<rparr>))))
     = [(''0_0'', True, True), (''0_1'', False, False)]"
  using toggle_resets_allExpanded [of sampleHost "''0_0''"
      "initialState\<lparr>fieldData := Some ''[[1]]''\<rparr>"]
  by (simp add: eval_state eval_simps Let_def)

text \<open>
  C10. A payload that is \<open>null\<close> or \<open>undefined\<close>, consists of white space only (the empty
  text included) or is exactly \<open>{}\<close> makes \<open>processPayload\<close> empty the tree and return:
  nothing else of the state changes, the error field included, and \<open>JSON.parse\<close> is not
  consulted.
\<close>

theorem blank_payload:
  assumes "payload = None \<or> (\<exists>p. payload = Some p \<and> (list_all isWhiteSpace p \<or> p = ''{}''))"
  shows "processPayload h payload s = s\<lparr>jsonTree := []\<rparr>"
  using assms by (auto simp: processPayload_def trim_blank)

text \<open>
  The witness: a payload of two spaces and a tab, in a state that shows an error and a
  tree. The tree is emptied and the error stays.
\<close>

theorem blank_payload_witness:
  "list_all isWhiteSpace [CHR '' '', CHR '' '', CHR 0x09]
   \<and> processPayload sampleHost (Some [CHR '' '', CHR '' '', CHR 0x09])
       (initialState\<lparr>error := Some ''Invalid JSON: x'',
                       jsonTree := buildJsonTree sampleHost {} JNull (PStr []) 0\<rparr>)
     = initialState\<lparr>error := Some ''Invalid JSON: x'', jsonTree := []\<rparr>"
proof -
  have w: "list_all isWhiteSpace [CHR '' '', CHR '' '', CHR 0x09]"
    by (simp add: isWhiteSpace_def)
  then have "Some [CHR '' '', CHR '' '', CHR 0x09] = None \<or>
    (\<exists>p. Some [CHR '' '', CHR '' '', CHR 0x09] = Some p \<and> (list_all isWhiteSpace p \<or> p = ''{}''))"
    by blast
  from blank_payload [OF this, of sampleHost] w show ?thesis by simp
qed

text \<open>
  The button handler in the state where not everything is expanded: it adds the ids
  found by \<open>addAllNodesToExpanded\<close> to the set, raises the flag and stores the tree
  materialized with the new set.
\<close>

lemma handleExpandCollapseAll_expands:
  assumes "\<not> allExpanded s" and "fieldData s = Some d" and "trim d \<noteq> []" and "d \<noteq> ''{}''"
    and "jsonParse h d = Inr v"
  shows "allExpanded (handleExpandCollapseAll h s)"
    and "expandedNodes (handleExpandCollapseAll h s)
         = addAllNodesToExpanded (expandedNodes s) v (PStr []) 0"
    and "jsonTree (handleExpandCollapseAll h s)
         = buildJsonTree h (addAllNodesToExpanded (expandedNodes s) v (PStr []) 0) v (PStr []) 0"
proof -
  from assms(3) have "d \<noteq> []" by (auto simp: trim_def)
  with assms show "allExpanded (handleExpandCollapseAll h s)"
    and "expandedNodes (handleExpandCollapseAll h s)
         = addAllNodesToExpanded (expandedNodes s) v (PStr []) 0"
    and "jsonTree (handleExpandCollapseAll h s)
         = buildJsonTree h (addAllNodesToExpanded (expandedNodes s) v (PStr []) 0) v (PStr []) 0"
    by (simp_all add: handleExpandCollapseAll_def expandAllNodes_def processCurrentSelection_def
        processPayload_def)
qed

subsection \<open>The error surface\<close>

lemma processPayload_error_cases:
  "error (processPayload h payload s) = error s \<or>
   (\<exists>p m. payload = Some p \<and> jsonParse h p = Inl m \<and>
      error (processPayload h payload s) = Some (''Invalid JSON: '' @ m))"
  by (auto simp: processPayload_def split: option.splits sum.splits)

lemma processCurrentSelection_keeps:
  assumes "error s = None \<or> fieldData s = None \<or>
           (\<exists>p m. fieldData s = Some p \<and> jsonParse h p = Inl m)"
  shows "error (processCurrentSelection h s) = None \<or>
         fieldData (processCurrentSelection h s) = None \<or>
         (\<exists>p m. fieldData (processCurrentSelection h s) = Some p \<and> jsonParse h p = Inl m)"
  using assms processPayload_error_cases [of h "fieldData s" s]
  by (auto simp: processCurrentSelection_def)

lemma expandAllNodes_fields [simp]:
  "error (expandAllNodes h s) = error s"
  "fieldData (expandAllNodes h s) = fieldData s"
  by (simp_all add: expandAllNodes_def split: option.splits sum.splits)

lemma extractFieldDefinition_fields [simp]:
  "error (extractFieldDefinition d s) = error s"
  "fieldData (extractFieldDefinition d s) = fieldData s"
  by (simp_all add: extractFieldDefinition_def split: option.splits)

lemma wiredRecord_data:
  "\<exists>s'. error s' = None \<and> wiredRecord h err (Some d) s = processCurrentSelection h s'"
  unfolding wiredRecord_def Let_def option.case
  by (rule exI, rule conjI [OF _ refl]) (simp split: option.splits)

lemma wiredRecord_keeps:
  assumes "error s = None \<or> fieldData s = None \<or>
           (\<exists>p m. fieldData s = Some p \<and> jsonParse h p = Inl m)"
  shows "error (wiredRecord h err dat s) = None \<or>
         fieldData (wiredRecord h err dat s) = None \<or>
         (\<exists>p m. fieldData (wiredRecord h err dat s) = Some p \<and> jsonParse h p = Inl m)"
proof (cases dat)
  case (Some d)
  from wiredRecord_data [of h err d s] obtain s'
    where "error s' = None" and w: "wiredRecord h err (Some d) s = processCurrentSelection h s'"
    by blast
  then show ?thesis unfolding Some w by (intro processCurrentSelection_keeps) simp
next
  case None
  with assms show ?thesis by (cases err) (simp_all add: wiredRecord_def)
qed

lemma no_stale_error:
  "reachable h s \<Longrightarrow>
   error s = None \<or> fieldData s = None \<or> (\<exists>p m. fieldData s = Some p \<and> jsonParse h p = Inl m)"
proof (induction rule: reachable.induct)
  case init
  show ?case by (simp add: initialState_def)
next
  case (configure s a)
  then show ?case by simp
next
  case (wire s err dat)
  from wire.IH show ?case by (rule wiredRecord_keeps)
next
  case (objectInfo s)
  from objectInfo.IH show ?case by (rule processCurrentSelection_keeps)
next
  case (toggle s nodeKey)
  show ?case
    unfolding handleToggleExpansion_def Let_def rebuildTree_def
    by (rule processCurrentSelection_keeps) (use toggle.IH in \<open>simp add: updateAllExpandedState_def\<close>)
next
  case (toggleAll s)
  show ?case
    unfolding handleExpandCollapseAll_def
    by (rule processCurrentSelection_keeps) (use toggleAll.IH in simp)
next
  case (format s)
  then show ?case by (simp add: handleFormatToggle_def)
qed

text \<open>
  C7, as amended. When a payload that is not blank and not \<open>{}\<close> is rejected by
  \<open>JSON.parse\<close> with message \<open>m\<close>, \<open>processPayload\<close> returns normally with an empty tree
  and the error message \<open>Invalid JSON: m\<close>. A delivery of the record wire clears the
  error before it processes the field, so whenever the delivered text parses, no error is
  left; and in no state that the component can reach does an error stand beside field data
  that parses.
\<close>

theorem parse_error_surface:
  "(trim p \<noteq> [] \<and> p \<noteq> ''{}'' \<and> jsonParse h p = Inl m \<longrightarrow>
      processPayload h (Some p) s = s\<lparr>error := Some (''Invalid JSON: '' @ m), jsonTree := []\<rparr>)
   \<and> (fieldData (wiredRecord h err (Some d) t) = Some q \<and> jsonParse h q = Inr v \<longrightarrow>
      error (wiredRecord h err (Some d) t) = None)
   \<and> (reachable h r \<and> fieldData r = Some q' \<and> jsonParse h q' = Inr v' \<longrightarrow> error r = None)"
proof (intro conjI impI)
  assume "trim p \<noteq> [] \<and> p \<noteq> ''{}'' \<and> jsonParse h p = Inl m"
  then show "processPayload h (Some p) s
             = s\<lparr>error := Some (''Invalid JSON: '' @ m), jsonTree := []\<rparr>"
    by (auto simp: processPayload_def trim_def)
next
  assume a: "fieldData (wiredRecord h err (Some d) t) = Some q \<and> jsonParse h q = Inr v"
  have "wiredRecord h err (Some d) (t\<lparr>error := None\<rparr>) = wiredRecord h err (Some d) t"
    by (simp add: wiredRecord_def)
  with wiredRecord_keeps [of "t\<lparr>error := None\<rparr>" h err "Some d"] a
  show "error (wiredRecord h err (Some d) t) = None" by auto
next
  assume "reachable h r \<and> fieldData r = Some q' \<and> jsonParse h q' = Inr v'"
  with no_stale_error [of h r] show "error r = None" by auto
qed

text \<open>
  The witness: the text \<open>{invalid\<close> is rejected and leaves the message; the next delivery
  brings \<open>[1]\<close>, which parses, and the message is gone. Both states are reachable.
\<close>

theorem parse_error_surface_witness:
  "trim ''{invalid'' = ''{invalid''
   \<and> jsonParse sampleHost ''{invalid'' = Inl ''Unexpected token i in JSON at position 1''
   \<and> jsonParse sampleHost ''[1]'' = Inr (JArr [JNum 1])
   \<and> processPayload sampleHost (Some ''{invalid'') initialState
     = initialState\<lparr>error := Some ''Invalid JSON: Unexpected token i in JSON at position 1'',
                     jsonTree := []\<rparr>
   \<and> error (wiredRecord sampleHost None (Some (sampleRecord ''{invalid'')) initialState)
       = Some ''Invalid JSON: Unexpected token i in JSON at position 1''
   \<and> fieldData (wiredRecord sampleHost None (Some (sampleRecord ''[1]''))
        (wiredRecord sampleHost None (Some (sampleRecord ''{invalid'')) initialState))
       = Some ''[1]''
   \<and> error (wiredRecord sampleHost None (Some (sampleRecord ''[1]''))
        (wiredRecord sampleHost None (Some (sampleRecord ''{invalid'')) initialState))
       = None
   \<and> reachable sampleHost (wiredRecord sampleHost None (Some (sampleRecord ''[1]''))
        (wiredRecord sampleHost None (Some (sampleRecord ''{invalid'')) initialState))"
proof -
  have r: "reachable sampleHost (wiredRecord sampleHost None (Some (sampleRecord ''[1]''))
        (wiredRecord sampleHost None (Some (sampleRecord ''{invalid'')) initialState))"
    by (intro reachable.wire reachable.init)
  show ?thesis
    using r parse_error_surface [where p = "''{invalid''" and h = sampleHost
        and m = "''Unexpected token i in JSON at position 1''" and s = initialState
        and err = None and d = "sampleRecord ''[1]''"
        and t = "wiredRecord sampleHost None (Some (sampleRecord ''{invalid'')) initialState"
        and q = "''[1]''" and v = "JArr [JNum 1]"
        and r = "wiredRecord sampleHost None (Some (sampleRecord ''[1]''))
          (wiredRecord sampleHost None (Some (sampleRecord ''{invalid'')) initialState)"
        and q' = "''[1]''" and v' = "JArr [JNum 1]"]
    by (simp add: eval_state sampleRecord_def Let_def)
qed

text \<open>
  The claim as it stands fails for a blank payload: a single space is not valid JSON
  (\<open>JSON.parse\<close> rejects it), yet processing it sets no error message.
\<close>

theorem parse_error_surface_counterexample:
  "jsonParse sampleHost '' '' = Inl ''Unexpected end of JSON input''
   \<and> error (processPayload sampleHost (Some '' '') initialState) = None"
  by (simp add: eval_state)


subsection \<open>The text of a container entry\<close>

lemma nth_buildJsonTree:
  assumes "isContainer obj" "i < length (entriesOf obj)"
  shows "buildJsonTree h S obj p l ! i
         = entryNode h S obj p l (fst (entriesOf obj ! i)) (snd (entriesOf obj ! i))"
  using assms by (simp add: buildJsonTree_container case_prod_beta)

text \<open>
  C3, as amended. An entry whose value is an empty object or an empty array gets a node
  that has no children to show, whatever the set of expanded nodes holds, and the text of
  its value is the serialization \<open>{}\<close> or \<open>[]\<close> that \<open>formatValue\<close> falls back to.
\<close>

theorem empty_container_entry:
  assumes "isContainer obj" and "i < length (entriesOf obj)"
    and "snd (entriesOf obj ! i) = v" and "v = JObj [] \<or> v = JArr []"
  shows "n_hasChildren (buildJsonTree h S obj p l ! i) = False
         \<and> n_children (buildJsonTree h S obj p l ! i) = []
         \<and> n_value (buildJsonTree h S obj p l ! i) = (if v = JObj [] then ''{}'' else ''[]'')"
proof -
  have "hasChildren v = False" and "formatValue h v = (if v = JObj [] then ''{}'' else ''[]'')"
    using assms(4)
    by (auto simp: hasChildren_def keysLength_def formatValue_def objectEntries_def)
  then show ?thesis
    unfolding nth_buildJsonTree [OF assms(1,2)] assms(3)
    by (simp add: entryValueText_def)
qed

text \<open>
  The witness: \<open>{"a": {}, "b": []}\<close>, with the ids of both entries in the set of
  expanded nodes.
\<close>

theorem empty_container_entry_witness:
  "isContainer (JObj [(''a'', JObj []), (''b'', JArr [] :: nat json)])
   \<and> snd (entriesOf (JObj [(''a'', JObj []), (''b'', JArr [] :: nat json)]) ! 0) = JObj []
   \<and> map (\<lambda>n. (n_key n, n_value n, n_hasChildren n, n_isExpanded n, n_children n))
     (buildJsonTree sampleHost {''a_0'', ''b_0''}
        (JObj [(''a'', JObj []), (''b'', JArr [])]) (PStr []) 0)
   = [(''a_0'', ''{}'', False, True, []), (''b_0'', ''[]'', False, True, [])]"
  using empty_container_entry [of "JObj [(''a'', JObj []), (''b'', JArr [])]" 0 "JObj []"
      sampleHost "{''a_0'', ''b_0''}" "PStr []" 0]
  by (simp add: eval_simps sampleHost_def)

text \<open>
  The claim as it stands fails: the text for the empty object of \<open>{"a": {}}\<close> is
  \<open>{}\<close>, not the count placeholder.
\<close>

theorem empty_container_entry_counterexample:
  "n_value (hd (buildJsonTree sampleHost {} (JObj [(''a'', JObj [])]) (PStr []) 0)) = ''{}''
   \<and> n_value (hd (buildJsonTree sampleHost {} (JObj [(''a'', JObj [])]) (PStr []) 0))
       \<noteq> ''{0 properties}''
   \<and> n_value (hd (buildJsonTree sampleHost {} (JObj [(''a'', JArr [])]) (PStr []) 0)) = ''[]''
   \<and> n_value (hd (buildJsonTree sampleHost {} (JObj [(''a'', JArr [])]) (PStr []) 0))
       \<noteq> ''[0 items]''"
  by (simp add: eval_simps sampleHost_def)

text \<open>
  C2. The placeholder of an expandable entry follows the container that is being
  iterated, not the entry: under an object, an array of three items reads
  \<open>{3 properties}\<close>; under an array of one item, an object of two properties reads
  \<open>[1 items]\<close>.
\<close>

theorem placeholder_follows_parent:
  "map n_value (buildJsonTree sampleHost {}
      (JObj [(''a'', JArr [JNum 1, JNum 2, JNum 3])]) (PStr []) 0) = [''{3 properties}'']
   \<and> map n_value (buildJsonTree sampleHost {}
      (JArr [JObj [(''x'', JNum 1), (''y'', JNum 2)]]) (PStr []) 0) = [''[1 items]'']"
  by (simp add: eval_simps sampleHost_def)

subsection \<open>Order of the rows\<close>

lemma displayKeys_container:
  "isContainer obj \<Longrightarrow>
   map n_displayKey (buildJsonTree h S obj p l) = map fst (entriesOf obj)"
  by (simp add: buildJsonTree_container case_prod_beta comp_def)

lemma map_insort_key:
  "map g (insort_key (\<lambda>x. f (g x)) x xs) = insort_key f (g x) (map g xs)"
  by (induction xs) simp_all

lemma map_sort_key: "map g (sort_key (\<lambda>x. f (g x)) xs) = sort_key f (map g xs)"
  by (induction xs) (simp_all add: map_insort_key)

lemma objectEntries_keys:
  "map fst (objectEntries kvs)
   = sort_key digitsValue (filter isArrayIndex (map fst kvs))
     @ filter (\<lambda>k. \<not> isArrayIndex k) (map fst kvs)"
  by (simp add: objectEntries_def filter_map comp_def case_prod_unfold
      map_sort_key [of fst digitsValue])

lemma objectEntries_plain:
  "list_all (\<lambda>(k, v). \<not> isArrayIndex k) kvs \<Longrightarrow> objectEntries kvs = kvs"
  by (simp add: objectEntries_def list_all_iff case_prod_beta)

text \<open>
  C6, as amended. The tree that \<open>processPayload\<close> stores depends on the state only
  through the set of expanded nodes. The rows of an array are its items by ascending
  index. The rows of an object are its properties in the order of \<open>Object.entries\<close>:
  first the keys that are array indices, by ascending value, then the other keys in
  insertion order; so an object none of whose keys is an array index has its rows in
  insertion order.
\<close>

theorem materialization_deterministic:
  "(expandedNodes s1 = expandedNodes s2 \<longrightarrow>
      jsonTree (processPayload h payload s1) = jsonTree (processPayload h payload s2))
   \<and> map n_displayKey (buildJsonTree h S (JArr xs) p l) = map PNum [0..<length xs]
   \<and> map n_displayKey (buildJsonTree h S (JObj kvs) p l)
       = map PStr (sort_key digitsValue (filter isArrayIndex (map fst kvs))
                   @ filter (\<lambda>k. \<not> isArrayIndex k) (map fst kvs))
   \<and> (list_all (\<lambda>(k, v). \<not> isArrayIndex k) kvs \<longrightarrow>
        map n_displayKey (buildJsonTree h S (JObj kvs) p l) = map (\<lambda>(k, v). PStr k) kvs)"
proof (intro conjI impI)
  assume "expandedNodes s1 = expandedNodes s2"
  then show "jsonTree (processPayload h payload s1) = jsonTree (processPayload h payload s2)"
    by (simp add: processPayload_def split: option.splits sum.splits)
next
  show "map n_displayKey (buildJsonTree h S (JArr xs) p l) = map PNum [0..<length xs]"
    by (simp add: displayKeys_container isContainer_def)
next
  have "map n_displayKey (buildJsonTree h S (JObj kvs) p l) = map PStr (map fst (objectEntries kvs))"
    by (simp add: displayKeys_container isContainer_def comp_def case_prod_beta)
  then show "map n_displayKey (buildJsonTree h S (JObj kvs) p l)
       = map PStr (sort_key digitsValue (filter isArrayIndex (map fst kvs))
                   @ filter (\<lambda>k. \<not> isArrayIndex k) (map fst kvs))"
    by (simp only: objectEntries_keys)
next
  assume "list_all (\<lambda>(k, v). \<not> isArrayIndex k) kvs"
  then show "map n_displayKey (buildJsonTree h S (JObj kvs) p l) = map (\<lambda>(k, v). PStr k) kvs"
    by (simp add: displayKeys_container isContainer_def objectEntries_plain comp_def
        case_prod_beta)
qed

text \<open>
  The witness: two states that differ in everything but the set of expanded nodes store
  the same tree; the rows of \<open>{"b": 1, "10": 2, "a": 3, "9": 4}\<close> are \<open>9, 10, b, a\<close>
  and those of \<open>{"b": 1, "a": 3}\<close> are \<open>b, a\<close>.
\<close>

theorem materialization_deterministic_witness:
  "jsonTree (processPayload sampleHost (Some ''[[1]]'') initialState)
     = jsonTree (processPayload sampleHost (Some ''[[1]]'')
         (initialState\<lparr>error := Some ''x'', allExpanded := True, showRawFormat := True,
            jsonTree := buildJsonTree sampleHost {} JNull (PStr []) 0\<rparr>))
   \<and> map n_displayKey (buildJsonTree sampleHost {} (JArr [JNull, JNull, JNull]) (PStr []) 0)
       = [PNum 0, PNum 1, PNum 2]
   \<and> map n_displayKey (buildJsonTree sampleHost {}
         (JObj [(''b'', JNum 1), (''10'', JNum 2), (''a'', JNum 3), (''9'', JNum 4)]) (PStr []) 0)
       = [PStr ''9'', PStr ''10'', PStr ''b'', PStr ''a'']
   \<and> list_all (\<lambda>(k, v). \<not> isArrayIndex k) [(''b'', JNum (1::nat)), (''a'', JNum 3)]
   \<and> map n_displayKey (buildJsonTree sampleHost {}
         (JObj [(''b'', JNum 1), (''a'', JNum 3)]) (PStr []) 0)
       = [PStr ''b'', PStr ''a'']"
  using materialization_deterministic [where ?s1.0 = initialState
      and ?s2.0 = "initialState\<lparr>error := Some ''x'', allExpanded := True, showRawFormat := True,
            jsonTree := buildJsonTree sampleHost {} JNull (PStr []) 0\<rparr>"
      and h = sampleHost and payload = "Some ''[[1]]''" and S = "{}"
      and xs = "[JNull, JNull, JNull]" and p = "PStr []" and l = 0
      and kvs = "[(''b'', JNum 1), (''a'', JNum 3)]"]
  by (simp add: eval_simps eval_state)

text \<open>
  The claim as it stands fails: in \<open>{"b": 1, "1": 2}\<close> the key \<open>b\<close> was inserted
  first, and the first row is \<open>1\<close>.
\<close>

theorem materialization_deterministic_counterexample:
  "map n_displayKey (buildJsonTree sampleHost {}
      (JObj [(''b'', JNum 1), (''1'', JNum 2)]) (PStr []) 0) = [PStr ''1'', PStr ''b'']
   \<and> map n_displayKey (buildJsonTree sampleHost {}
      (JObj [(''b'', JNum 1), (''1'', JNum 2)]) (PStr []) 0)
     \<noteq> map (\<lambda>(k, v). PStr k) [(''b'', JNum (1::nat)), (''1'', JNum 2)]"
  by (simp add: eval_simps sampleHost_def)

subsection \<open>Node ids\<close>

lemma digitChar_digit: "n < 10 \<Longrightarrow> isDigit (digitChar n)"
proof -
  assume "n < 10"
  then have "n \<in> {0, 1, 2, 3, 4, 5, 6, 7, 8, 9}" by auto
  then show ?thesis by (auto simp: isDigit_def digitChar_def)
qed

lemma split_at_first:
  "c \<notin> set u \<Longrightarrow> c \<notin> set u' \<Longrightarrow> u @ c # r = u' @ c # r' \<Longrightarrow> u = u' \<and> r = r'"
proof (induction u arbitrary: u')
  case Nil
  then show ?case by (cases u') auto
next
  case (Cons a u)
  then show ?case by (cases u') auto
qed

lemma digitValue_digitChar: "n < 10 \<Longrightarrow> digitValue (digitChar n) = n"
proof -
  assume "n < 10"
  then have "n \<in> {0, 1, 2, 3, 4, 5, 6, 7, 8, 9}" by auto
  then show ?thesis by (auto simp: digitValue_def digitChar_def)
qed

lemma natToString_digits: "list_all isDigit (natToString n)"
proof (induction n rule: natToString.induct)
  case (1 n)
  then show ?case
    by (subst natToString.simps) (simp add: digitChar_digit)
qed

lemma digitsValue_snoc: "digitsValue (s @ [c]) = 10 * digitsValue s + digitValue c"
  by (simp add: digitsValue_def)

lemma digitsValue_natToString: "digitsValue (natToString n) = n"
proof (induction n rule: natToString.induct)
  case (1 n)
  show ?case
  proof (cases "n < 10")
    case True
    then show ?thesis
      by (subst natToString.simps) (simp add: digitsValue_def digitValue_digitChar)
  next
    case False
    with 1 show ?thesis
      by (subst natToString.simps) (simp add: digitsValue_snoc digitValue_digitChar)
  qed
qed

lemma natToString_inj: "natToString a = natToString b \<Longrightarrow> a = b"
  by (metis digitsValue_natToString)

lemma natToString_no_char: "\<not> isDigit c \<Longrightarrow> c \<notin> set (natToString n)"
  using natToString_digits [of n] by (auto simp: list_all_iff)

lemma generateKey_split:
  assumes "t @ ''_'' @ natToString a = t' @ ''_'' @ natToString b"
  shows "t = t' \<and> a = b"
proof -
  have u: "CHR ''_'' \<notin> set (rev (natToString a))" "CHR ''_'' \<notin> set (rev (natToString b))"
    using natToString_no_char [of "CHR ''_''"] by (simp_all add: isDigit_def)
  from assms have "rev (t @ ''_'' @ natToString a) = rev (t' @ ''_'' @ natToString b)"
    by simp
  then have "rev (natToString a) @ CHR ''_'' # rev t = rev (natToString b) @ CHR ''_'' # rev t'"
    by simp
  with u have "rev (natToString a) = rev (natToString b) \<and> rev t = rev t'"
    by (intro split_at_first)
  then show ?thesis by (simp add: natToString_inj)
qed

lemma keyToString_inj: "sameKind k k' \<Longrightarrow> keyToString k = keyToString k' \<Longrightarrow> k = k'"
  by (cases k; cases k') (auto dest: natToString_inj)

lemma sameKind_falsy: "sameKind k k' \<Longrightarrow> \<not> truthy k \<Longrightarrow> \<not> truthy k' \<Longrightarrow> k = k'"
  by (cases k; cases k') auto

lemma first_segment:
  assumes "CHR ''.'' \<notin> set u" "CHR ''.'' \<notin> set u'" "u @ ''.'' @ r = u' @ ''.'' @ r'"
  shows "u = u'"
  using split_at_first [of "CHR ''.''" u u' r r'] assms by simp


lemma natToString_no_dot: "CHR ''.'' \<notin> set (natToString n)"
  by (rule natToString_no_char) (simp add: isDigit_def)

lemma entries_sameKind:
  "(k, v) \<in> set (entriesOf obj) \<Longrightarrow> (k', v') \<in> set (entriesOf obj) \<Longrightarrow> sameKind k k'"
  by (cases obj) (auto dest!: set_zip_leftD)

lemma entries_wellFormed:
  "wellFormed obj \<Longrightarrow> (k, v) \<in> set (entriesOf obj) \<Longrightarrow> wellFormed v"
  by (cases obj) (auto simp: list_all_iff objectEntries_set dest!: set_zip_rightD)

lemma entries_dotFree:
  "dotFreeKeys obj \<Longrightarrow> (k, v) \<in> set (entriesOf obj) \<Longrightarrow>
   dotFreeKeys v \<and> CHR ''.'' \<notin> set (keyToString k)"
proof (cases obj)
  case (JArr xs)
  assume "dotFreeKeys obj" "(k, v) \<in> set (entriesOf obj)"
  with JArr have m: "(k, v) \<in> set (zip (map PNum [0..<length xs]) xs)"
    and "list_all dotFreeKeys xs" by simp_all
  moreover from m have "v \<in> set xs" by (rule set_zip_rightD)
  moreover from m have "k \<in> set (map PNum [0..<length xs])" by (rule set_zip_leftD)
  then have "\<exists>i. k = PNum i" by auto
  ultimately show ?thesis
    by (auto simp: list_all_iff natToString_no_dot)
next
  case (JObj kvs)
  assume "dotFreeKeys obj" "(k, v) \<in> set (entriesOf obj)"
  with JObj show ?thesis
    by (auto simp: list_all_iff objectEntries_set)
qed simp_all

lemma entries_distinct: "wellFormed obj \<Longrightarrow> distinct (map fst (entriesOf obj))"
proof (cases obj)
  case (JArr xs)
  then show ?thesis by (simp add: distinct_map inj_on_def)
next
  case (JObj kvs)
  assume "wellFormed obj"
  with JObj have d: "distinct (map fst kvs)" by simp
  have "map fst (entriesOf obj) = map PStr (map fst (objectEntries kvs))"
    using JObj by (simp add: comp_def case_prod_beta)
  moreover have "distinct (map fst (objectEntries kvs))"
    unfolding objectEntries_keys using d by auto
  ultimately show ?thesis by (simp add: distinct_map inj_on_def)
qed simp_all

lemma fullPathOf_text:
  "keyToString (fullPathOf p k)
   = (if truthy p then keyToString p @ ''.'' @ keyToString k else keyToString k)"
  by (simp add: fullPathOf_def)

lemma fullPathOf_truthy: "truthy (fullPathOf p k) \<longleftrightarrow> truthy p \<or> truthy k"
  by (simp add: fullPathOf_def)

text \<open>The id of every row below a container has the shape that \<open>pathUnder\<close> states.\<close>

lemma entry_pathUnder:
  assumes "CHR ''.'' \<notin> set (keyToString k)"
  shows "pathUnder p l (keyToString (fullPathOf p k)) l"
  using assms by (simp add: pathUnder_def fullPathOf_text)

lemma child_pathUnder:
  assumes "CHR ''.'' \<notin> set (keyToString k)" and "pathUnder (fullPathOf p k) (Suc l) t lv"
  shows "pathUnder p l t lv"
proof (cases "truthy p")
  case True
  with assms show ?thesis
    by (auto simp: pathUnder_def fullPathOf_text fullPathOf_truthy)
next
  case False
  with assms show ?thesis
    by (cases "truthy k") (auto simp: pathUnder_def fullPathOf_def)
qed

lemma tree_keys_shape:
  "dotFreeKeys obj \<Longrightarrow> isContainer obj \<Longrightarrow>
   n \<in> set (flatten (buildJsonTree h S obj p l)) \<Longrightarrow>
   \<exists>t. n_key n = t @ ''_'' @ natToString (n_level n) \<and> pathUnder p l t (n_level n)"
proof (induction obj arbitrary: p l rule: json_entries_induct)
  case (step obj)
  from step.prems(3) obtain k v where kv: "(k, v) \<in> set (entriesOf obj)"
    and n: "n = entryNode h S obj p l k v \<or>
            (hasChildren v \<and> generateKey (fullPathOf p k) l \<in> S \<and>
             n \<in> set (flatten (buildJsonTree h S v (fullPathOf p k) (l + 1))))"
    unfolding in_flatten_container [OF step.prems(2)] by blast
  from entries_dotFree [OF step.prems(1) kv]
  have dv: "dotFreeKeys v" and dk: "CHR ''.'' \<notin> set (keyToString k)" by simp_all
  from n show ?case
  proof
    assume "n = entryNode h S obj p l k v"
    then show ?thesis
      using entry_pathUnder [OF dk, of p l] by (auto simp: generateKey_def)
  next
    assume a: "hasChildren v \<and> generateKey (fullPathOf p k) l \<in> S \<and>
             n \<in> set (flatten (buildJsonTree h S v (fullPathOf p k) (l + 1)))"
    then have "isContainer v" by (simp add: hasChildren_container)
    from step.IH [OF kv dv this] a obtain t
      where "n_key n = t @ ''_'' @ natToString (n_level n)"
        and "pathUnder (fullPathOf p k) (Suc l) t (n_level n)" by auto
    with child_pathUnder [OF dk] show ?thesis by blast
  qed
qed

text \<open>
  The rows of two entries of one container cannot share an id: their paths differ at the
  entry's own key, or in the number of dots.
\<close>

lemma blocks_apart:
  assumes sk: "sameKind k k'" and ne: "k \<noteq> k'"
    and dk: "CHR ''.'' \<notin> set (keyToString k)" and dk': "CHR ''.'' \<notin> set (keyToString k')"
    and b: "blockShape p l k t lv" and b': "blockShape p l k' t lv"
  shows False
proof -
  from sk ne have nt: "keyToString k \<noteq> keyToString k'" by (auto dest: keyToString_inj)
  have seg: False if "t = x @ keyToString k @ ''.'' @ r" "t = x @ keyToString k' @ ''.'' @ r'"
    for x r r'
    using that nt first_segment [OF dk dk', of r r'] by simp
  consider (top) "lv = l" "t = keyToString (fullPathOf p k)" "t = keyToString (fullPathOf p k')"
    | (mixed) "lv = l" "pathUnder (fullPathOf p k) (Suc l) t lv \<or> pathUnder (fullPathOf p k') (Suc l) t lv"
    | (deep) "pathUnder (fullPathOf p k) (Suc l) t lv" "pathUnder (fullPathOf p k') (Suc l) t lv"
    using b b' by (auto simp: blockShape_def)
  then show False
  proof cases
    case top
    then show False using nt by (auto simp: fullPathOf_text split: if_splits)
  next
    case mixed
    then show False by (auto simp: pathUnder_def)
  next
    case deep
    show False
    proof (cases "truthy p")
      case True
      with deep obtain r r' where
        "t = (keyToString p @ ''.'') @ keyToString k @ ''.'' @ r"
        "t = (keyToString p @ ''.'') @ keyToString k' @ ''.'' @ r'"
        by (auto simp: pathUnder_def fullPathOf_text fullPathOf_truthy)
      then show False by (rule seg)
    next
      case False
      then have fp: "fullPathOf p k = k" "fullPathOf p k' = k'" by (simp_all add: fullPathOf_def)
      consider "truthy k" "truthy k'" | "truthy k" "\<not> truthy k'" | "\<not> truthy k" "truthy k'"
        | "\<not> truthy k" "\<not> truthy k'" by blast
      then show False
      proof cases
        case 1
        with deep fp obtain r r' where
          "t = [] @ keyToString k @ ''.'' @ r" "t = [] @ keyToString k' @ ''.'' @ r'"
          by (auto simp: pathUnder_def)
        then show False by (rule seg)
      next
        case 2
        with deep fp dk show False by (auto simp: pathUnder_def)
      next
        case 3
        with deep fp dk' show False by (auto simp: pathUnder_def)
      next
        case 4
        with sk ne show False by (auto dest: sameKind_falsy)
      qed
    qed
  qed
qed

lemma distinct_concat_map:
  assumes "distinct (map g es)"
    and "\<And>e. e \<in> set es \<Longrightarrow> distinct (B e)"
    and "\<And>e e'. e \<in> set es \<Longrightarrow> e' \<in> set es \<Longrightarrow> g e \<noteq> g e' \<Longrightarrow> set (B e) \<inter> set (B e') = {}"
  shows "distinct (concat (map B es))"
  using assms
proof (induction es)
  case Nil
  then show ?case by simp
next
  case (Cons e es)
  have "distinct (concat (map B es))"
    by (rule Cons.IH) (use Cons.prems in auto)
  moreover have "distinct (B e)" by (rule Cons.prems(2)) simp
  moreover have "set (B e) \<inter> set (B e') = {}" if "e' \<in> set es" for e'
  proof (rule Cons.prems(3))
    from Cons.prems(1) that show "g e \<noteq> g e'" by auto
  qed (use that in simp_all)
  ultimately show ?case by auto
qed

lemma keys_flatten:
  "map n_key (flatten ns)
   = concat (map (\<lambda>n. n_key n # map n_key (flatten (n_children n))) ns)"
  by (induction ns) simp_all

lemma tree_keys_distinct:
  "wellFormed obj \<Longrightarrow> dotFreeKeys obj \<Longrightarrow> isContainer obj \<Longrightarrow>
   distinct (map n_key (flatten (buildJsonTree h S obj p l)))"
proof (induction obj arbitrary: p l rule: json_entries_induct)
  case (step obj)
  define B where "B e = generateKey (fullPathOf p (fst e)) l
      # map n_key (flatten (n_children (entryNode h S obj p l (fst e) (snd e))))" for e
  have flat: "map n_key (flatten (buildJsonTree h S obj p l)) = concat (map B (entriesOf obj))"
    unfolding buildJsonTree_container [OF step.prems(3)]
    by (subst keys_flatten)
       (simp add: comp_def B_def [abs_def] case_prod_beta del: entryNode_sel(9))
  have below: "\<exists>t lv. x = t @ ''_'' @ natToString lv \<and> pathUnder (fullPathOf p (fst e)) (Suc l) t lv"
    if e: "e \<in> set (entriesOf obj)"
      and x: "x \<in> set (map n_key (flatten (n_children (entryNode h S obj p l (fst e) (snd e)))))"
    for e x
  proof -
    from e have m: "(fst e, snd e) \<in> set (entriesOf obj)" by simp
    from x obtain n where n: "n \<in> set (flatten (n_children (entryNode h S obj p l (fst e) (snd e))))"
      and xn: "x = n_key n" by auto
    from n have hc: "hasChildren (snd e)"
      and nn: "n \<in> set (flatten (buildJsonTree h S (snd e) (fullPathOf p (fst e)) (l + 1)))"
      unfolding in_entry_children by simp_all
    from tree_keys_shape [OF _ hasChildren_container [OF hc] nn]
      entries_dotFree [OF step.prems(2) m] xn
    show ?thesis by auto
  qed
  have shape: "\<exists>t lv. x = t @ ''_'' @ natToString lv \<and> blockShape p l (fst e) t lv"
    if e: "e \<in> set (entriesOf obj)" and x: "x \<in> set (B e)" for e x
  proof (cases "x = generateKey (fullPathOf p (fst e)) l")
    case True
    then show ?thesis by (auto simp: generateKey_def blockShape_def)
  next
    case False
    with x have "x \<in> set (map n_key (flatten (n_children (entryNode h S obj p l (fst e) (snd e)))))"
      by (simp add: B_def)
    from below [OF e this] show ?thesis by (auto simp: blockShape_def)
  qed
  have "distinct (concat (map B (entriesOf obj)))"
  proof (rule distinct_concat_map [where g = fst])
    show "distinct (map fst (entriesOf obj))"
      by (rule entries_distinct) (rule step.prems(1))
  next
    fix e assume e: "e \<in> set (entriesOf obj)"
    then have m: "(fst e, snd e) \<in> set (entriesOf obj)" by simp
    have "distinct (map n_key (flatten (n_children (entryNode h S obj p l (fst e) (snd e)))))"
    proof (cases "hasChildren (snd e) \<and> generateKey (fullPathOf p (fst e)) l \<in> S")
      case True
      then have "isContainer (snd e)" by (simp add: hasChildren_container)
      from step.IH [OF m entries_wellFormed [OF step.prems(1) m] _ this]
        entries_dotFree [OF step.prems(2) m] True
      show ?thesis by simp
    next
      case False
      then show ?thesis by auto
    qed
    moreover have "generateKey (fullPathOf p (fst e)) l
       \<notin> set (map n_key (flatten (n_children (entryNode h S obj p l (fst e) (snd e)))))"
    proof
      assume "generateKey (fullPathOf p (fst e)) l
       \<in> set (map n_key (flatten (n_children (entryNode h S obj p l (fst e) (snd e)))))"
      from below [OF e this] obtain t lv
        where "generateKey (fullPathOf p (fst e)) l = t @ ''_'' @ natToString lv"
          and "pathUnder (fullPathOf p (fst e)) (Suc l) t lv" by blast
      then have "l = lv" and "Suc l \<le> lv"
        using generateKey_split [of "keyToString (fullPathOf p (fst e))" l t lv]
        by (simp_all add: generateKey_def pathUnder_def)
      then show False by simp
    qed
    ultimately show "distinct (B e)" by (simp add: B_def)
  next
    fix e e' assume e: "e \<in> set (entriesOf obj)" and e': "e' \<in> set (entriesOf obj)"
      and ne: "fst e \<noteq> fst e'"
    from e e' have m: "(fst e, snd e) \<in> set (entriesOf obj)"
      and m': "(fst e', snd e') \<in> set (entriesOf obj)" by simp_all
    show "set (B e) \<inter> set (B e') = {}"
    proof (rule ccontr)
      assume "set (B e) \<inter> set (B e') \<noteq> {}"
      then obtain x where "x \<in> set (B e)" "x \<in> set (B e')" by blast
      with shape [OF e] shape [OF e'] obtain t lv t' lv'
        where x: "x = t @ ''_'' @ natToString lv" and b: "blockShape p l (fst e) t lv"
          and x': "x = t' @ ''_'' @ natToString lv'" and b': "blockShape p l (fst e') t' lv'"
        by blast
      from x x' generateKey_split [of t lv t' lv'] have "t = t'" "lv = lv'" by simp_all
      with b' have "blockShape p l (fst e') t lv" by simp
      with blocks_apart [OF entries_sameKind [OF m m'] ne _ _ b]
        entries_dotFree [OF step.prems(2) m] entries_dotFree [OF step.prems(2) m']
      show False by blast
    qed
  qed
  with flat show ?case by simp
qed

lemma nodeAt_empty [simp]: "nodeAt [] ix = None"
  by (rule nodeAt.cases [of "([], ix)"]) auto

lemma nodeAt_key_stable:
  "nodeAt (buildJsonTree h S obj p l) ix = Some n \<Longrightarrow>
   nodeAt (buildJsonTree h S' obj p l) ix = Some n' \<Longrightarrow> n_key n = n_key n'"
proof (induction ix arbitrary: obj p l)
  case Nil
  then show ?case by simp
next
  case (Cons i rest)
  show ?case
  proof (cases "isContainer obj")
    case False
    with Cons.prems show ?thesis
      by (cases rest) (auto simp: buildJsonTree_scalar split: if_splits)
  next
    case True
    show ?thesis
    proof (cases rest)
      case Nil
      with Cons.prems True show ?thesis
        by (auto simp: buildJsonTree_container case_prod_beta split: if_splits)
    next
      case (Cons j js)
      with Cons.prems True have i: "i < length (entriesOf obj)"
        by (auto simp: buildJsonTree_container split: if_splits)
      let ?k = "fst (entriesOf obj ! i)" and ?v = "snd (entriesOf obj ! i)"
      from Cons.prems Cons True i
      have a: "nodeAt (n_children (entryNode h S obj p l ?k ?v)) rest = Some n"
        and b: "nodeAt (n_children (entryNode h S' obj p l ?k ?v)) rest = Some n'"
        by (simp_all add: buildJsonTree_container case_prod_beta del: entryNode_sel(9))
      from a Cons have "n_children (entryNode h S obj p l ?k ?v)
          = buildJsonTree h S ?v (fullPathOf p ?k) (l + 1)"
        by (auto split: if_splits)
      moreover from b Cons have "n_children (entryNode h S' obj p l ?k ?v)
          = buildJsonTree h S' ?v (fullPathOf p ?k) (l + 1)"
        by (auto split: if_splits)
      ultimately show ?thesis using a b Cons.IH by metis
    qed
  qed
qed


text \<open>
  Where the scheme does separate positions: in a document in which no object has two
  properties with the same key and no key contains a dot, the rows of a materialization,
  at all depths and for any set of expanded nodes, have pairwise distinct ids.
\<close>

lemma nodeIds_distinct_without_dots:
  assumes "wellFormed v" and "dotFreeKeys v"
  shows "distinct (map n_key (flatten (buildJsonTree h S v (PStr []) 0)))"
proof (cases "isContainer v")
  case True
  with assms show ?thesis by (rule tree_keys_distinct)
next
  case False
  then show ?thesis by (simp add: buildJsonTree_scalar)
qed

text \<open>
  C1. The ids are not injective over the positions of a document. The path joins the
  keys with a dot, so a key that contains a dot can make two positions of the same depth
  read alike: in \<open>{"a": {"b.c": {"x": 1}}, "a.b": {"c": {"y": 2}}}\<close>, which has no
  repeated key, the positions \<open>a\<close>, \<open>b.c\<close> and \<open>a.b\<close>, \<open>c\<close> both get the id
  \<open>a.b.c_1\<close>. With \<open>a\<close> and \<open>a.b\<close> expanded the ids of the four rows are not
  distinct, and putting the one id \<open>a.b.c_1\<close> into the set of expanded nodes expands
  both rows. (That a position keeps its id from one materialization to the next does
  hold, for every document: \<open>nodeAt_key_stable\<close>.)
\<close>

theorem nodeIds_collide:
  "wellFormed (JObj [(''a'', JObj [(''b.c'', JObj [(''x'', JNum (1::nat))])]),
                     (''a.b'', JObj [(''c'', JObj [(''y'', JNum 2)])])])
   \<and> map n_key (flatten (buildJsonTree sampleHost {''a_0'', ''a.b_0''}
        (JObj [(''a'', JObj [(''b.c'', JObj [(''x'', JNum 1)])]),
               (''a.b'', JObj [(''c'', JObj [(''y'', JNum 2)])])])
        (PStr []) 0))
       = [''a_0'', ''a.b.c_1'', ''a.b_0'', ''a.b.c_1'']
   \<and> \<not> distinct (map n_key (flatten (buildJsonTree sampleHost {''a_0'', ''a.b_0''}
        (JObj [(''a'', JObj [(''b.c'', JObj [(''x'', JNum 1)])]),
               (''a.b'', JObj [(''c'', JObj [(''y'', JNum 2)])])])
        (PStr []) 0)))
   \<and> map (\<lambda>n. (n_key n, n_displayKey n, n_isExpanded n))
        (flatten (buildJsonTree sampleHost {''a_0'', ''a.b_0'', ''a.b.c_1''}
        (JObj [(''a'', JObj [(''b.c'', JObj [(''x'', JNum 1)])]),
               (''a.b'', JObj [(''c'', JObj [(''y'', JNum 2)])])])
        (PStr []) 0))
       = [(''a_0'', PStr ''a'', True), (''a.b.c_1'', PStr ''b.c'', True),
          (''a.b.c.x_2'', PStr ''x'', False),
          (''a.b_0'', PStr ''a.b'', True), (''a.b.c_1'', PStr ''c'', True),
          (''a.b.c.y_2'', PStr ''y'', False)]"
  by (simp add: eval_simps sampleHost_def)

end
